theory Spec2Isabelle
  imports Complex_Main "HOL-Library.Multiset"
begin

section \<open>Software camera coverage validator: the data model\<close>

text \<open>
  The source file \<^verbatim>\<open>camera-coverage.ts\<close> works on two interfaces,
  \<^verbatim>\<open>NumericRange { min: number; max: number }\<close> and
  \<^verbatim>\<open>CameraSpec { distance: NumericRange; light: NumericRange }\<close>.
  The fields \<^verbatim>\<open>min\<close> and \<^verbatim>\<open>max\<close> are written \<open>min_r\<close> and \<open>max_r\<close> here,
  since \<open>min\<close> and \<open>max\<close> are constants of HOL.

  A TypeScript \<^verbatim>\<open>number\<close> is a binary64 float. The code compares numbers, takes
  \<^verbatim>\<open>Math.max\<close>, and adds \<open>1\<close> in two places (lines 58 and 79); only the addition
  can round. The functions are given in two readings:
  \<^item> with exact arithmetic over any ordered ring (\<open>linordered_idom\<close>, so \<open>int\<close> and
    \<open>real\<close>), where \<open>+ 1\<close> is the addition of the ring;
  \<^item> for whole numbers (\<open>int\<close>), with the two additions computed as binary64 computes
    them: the exact sum rounded to 53 bits, ties to even (\<open>add1_f64\<close>).
  The two readings agree on whole numbers as long as every \<open>max_r + 1\<close> is exact, which
  holds up to \<open>2 ^ 53\<close> in magnitude (lemma \<open>isRangeFullyCovered64_exact\<close>). Rounding of
  fractions, \<^verbatim>\<open>NaN\<close> and the infinities are outside both.
\<close>

record 'a NumericRange =
  min_r :: 'a
  max_r :: 'a

record 'a CameraSpec =
  distance :: "'a NumericRange"
  light :: "'a NumericRange"

section \<open>The core logic\<close>

text \<open>
  The merge loop of \<^verbatim>\<open>isRangeFullyCovered\<close> (lines 54 to 66). Its state is the
  array \<^verbatim>\<open>merged\<close> and the accumulator \<^verbatim>\<open>current\<close>; the third argument is
  what is left of \<^verbatim>\<open>sorted\<close> from index \<^verbatim>\<open>i\<close> on. When the loop ends the
  accumulator is pushed.
\<close>

fun mergeLoop ::
  "('a::linordered_idom) NumericRange list \<Rightarrow> 'a NumericRange \<Rightarrow> 'a NumericRange list
    \<Rightarrow> 'a NumericRange list" where
  "mergeLoop merged current [] = merged @ [current]"
| "mergeLoop merged current (next # rest) =
     (if min_r next \<le> max_r current + 1
      then mergeLoop merged (current\<lparr>max_r := max (max_r current) (max_r next)\<rparr>) rest
      else mergeLoop (merged @ [current]) next rest)"

text \<open>
  Lines 48 to 66: the stable sort of a copy by \<^verbatim>\<open>a.min - b.min\<close>, then the merge loop
  started at \<^verbatim>\<open>sorted[0]\<close>. \<open>sort_key\<close> is the stable insertion sort of the library.
  The source runs these lines only on a non-empty array.
\<close>

definition mergedBlocks ::
  "('a::linordered_idom) NumericRange list \<Rightarrow> 'a NumericRange list" where
  "mergedBlocks availableRanges =
     (let sorted = sort_key min_r availableRanges
      in mergeLoop [] (hd sorted) (tl sorted))"

text \<open>
  The coverage walk (lines 69 to 83): the loop over \<^verbatim>\<open>merged\<close> with its two early
  returns; \<^verbatim>\<open>coverageStart\<close> is the loop's state. The loop variable
  \<^verbatim>\<open>range\<close> is written \<open>range_m\<close>, since \<open>range\<close> is a constant of HOL.
\<close>

fun coverageWalk ::
  "('a::linordered_idom) NumericRange \<Rightarrow> 'a \<Rightarrow> 'a NumericRange list \<Rightarrow> bool" where
  "coverageWalk desired coverageStart [] = False"
| "coverageWalk desired coverageStart (range_m # rest) =
     (if min_r range_m > coverageStart then False
      else if max_r range_m \<ge> max_r desired then True
      else coverageWalk desired (max_r range_m + 1) rest)"

definition isRangeFullyCovered ::
  "('a::linordered_idom) NumericRange \<Rightarrow> 'a NumericRange list \<Rightarrow> bool" where
  "isRangeFullyCovered desired availableRanges =
     (if length availableRanges = 0 then False
      else coverageWalk desired (min_r desired) (mergedBlocks availableRanges))"

definition canCamerasCoverDesiredRange ::
  "('a::linordered_idom) NumericRange \<Rightarrow> 'a NumericRange \<Rightarrow> 'a CameraSpec list \<Rightarrow> bool" where
  "canCamerasCoverDesiredRange desiredDistance desiredLight hardwareCameras =
     (let distanceRanges = map distance hardwareCameras;
          lightRanges = map light hardwareCameras;
          distanceCovered = isRangeFullyCovered desiredDistance distanceRanges;
          lightCovered = isRangeFullyCovered desiredLight lightRanges
      in distanceCovered \<and> lightCovered)"

section \<open>The core logic on whole numbers in binary64 arithmetic\<close>

text \<open>
  A whole number of magnitude below \<open>2 ^ 53\<close> is a binary64 number; from there on the
  binary64 numbers are \<open>2\<close> apart up to \<open>2 ^ 54\<close>, then \<open>4\<close> apart, and so on.
  \<open>ulp64 n\<close> is that distance at the magnitude \<open>n\<close>.
\<close>

function ulp64 :: "int \<Rightarrow> int" where
  "ulp64 n = (if n < 2 ^ 53 then 1 else 2 * ulp64 (n div 2))"
  by pat_completeness auto
termination
  by (relation "measure nat") auto

declare ulp64.simps [simp del]

text \<open>
  Rounding a whole number to binary64, to the nearest and with ties to the even
  significand. Magnitudes from \<open>2 ^ 1024\<close> on, which binary64 rounds to infinity, are
  not modelled.
\<close>

definition round_f64 :: "int \<Rightarrow> int" where
  "round_f64 y =
     (let n = \<bar>y\<bar>; u = ulp64 n; q = n div u; r = n mod u;
          q' = (if 2 * r > u \<or> (2 * r = u \<and> odd q) then q + 1 else q)
      in sgn y * (q' * u))"

text \<open>
  \<^verbatim>\<open>x + 1\<close> as the code computes it for a whole number \<open>x\<close>: for example
  \<open>9007199254740994 + 1\<close> gives \<open>9007199254740996\<close>.
\<close>

definition add1_f64 :: "int \<Rightarrow> int" where
  "add1_f64 x = round_f64 (x + 1)"

text \<open>
  Lines 44 to 84 once more, word for word, with \<open>add1_f64\<close> at the two additions.
\<close>

fun mergeLoop64 ::
  "int NumericRange list \<Rightarrow> int NumericRange \<Rightarrow> int NumericRange list
    \<Rightarrow> int NumericRange list" where
  "mergeLoop64 merged current [] = merged @ [current]"
| "mergeLoop64 merged current (next # rest) =
     (if min_r next \<le> add1_f64 (max_r current)
      then mergeLoop64 merged (current\<lparr>max_r := max (max_r current) (max_r next)\<rparr>) rest
      else mergeLoop64 (merged @ [current]) next rest)"

definition mergedBlocks64 :: "int NumericRange list \<Rightarrow> int NumericRange list" where
  "mergedBlocks64 availableRanges =
     (let sorted = sort_key min_r availableRanges
      in mergeLoop64 [] (hd sorted) (tl sorted))"

fun coverageWalk64 :: "int NumericRange \<Rightarrow> int \<Rightarrow> int NumericRange list \<Rightarrow> bool" where
  "coverageWalk64 desired coverageStart [] = False"
| "coverageWalk64 desired coverageStart (range_m # rest) =
     (if min_r range_m > coverageStart then False
      else if max_r range_m \<ge> max_r desired then True
      else coverageWalk64 desired (add1_f64 (max_r range_m)) rest)"

definition isRangeFullyCovered64 :: "int NumericRange \<Rightarrow> int NumericRange list \<Rightarrow> bool" where
  "isRangeFullyCovered64 desired availableRanges =
     (if length availableRanges = 0 then False
      else coverageWalk64 desired (min_r desired) (mergedBlocks64 availableRanges))"

section \<open>Notions used to state and prove the properties\<close>

text \<open>
  What the specification asks of the checker: a number lies in the union of the
  candidates when some candidate contains it, and the union covers the target when
  every number of the closed range from the target's \<open>min_r\<close> to its \<open>max_r\<close>
  lies in the union. At type \<open>int\<close> the numbers are the whole numbers of the range,
  at type \<open>real\<close> all of them.
\<close>

definition inUnion :: "('a::linordered_idom) \<Rightarrow> 'a NumericRange list \<Rightarrow> bool" where
  "inUnion v candidates = (\<exists>c\<in>set candidates. min_r c \<le> v \<and> v \<le> max_r c)"

definition unionCovers :: "('a::linordered_idom) NumericRange \<Rightarrow> 'a NumericRange list \<Rightarrow> bool" where
  "unionCovers target candidates =
     (\<forall>v. min_r target \<le> v \<and> v \<le> max_r target \<longrightarrow> inUnion v candidates)"

text \<open>
  The upper end of the first merged block, read off the merge loop: starting from the
  upper end \<open>m\<close> of the accumulator, it follows the loop while the next interval is
  merged and stops where the loop would push the accumulator for the first time.
\<close>

fun firstReach :: "('a::linordered_idom) \<Rightarrow> 'a NumericRange list \<Rightarrow> 'a" where
  "firstReach m [] = m"
| "firstReach m (next # rest) =
     (if min_r next \<le> m + 1 then firstReach (max m (max_r next)) rest else m)"

fun firstReach64 :: "int \<Rightarrow> int NumericRange list \<Rightarrow> int" where
  "firstReach64 m [] = m"
| "firstReach64 m (next # rest) =
     (if min_r next \<le> add1_f64 m then firstReach64 (max m (max_r next)) rest else m)"

text \<open>
  A description of the first merged block that does not mention the order of the
  candidates. A bound \<open>v\<close> is closed for a set of intervals when every interval ends at
  or below \<open>v\<close> or begins above \<open>v + 1\<close>. The first block begins at the least
  \<open>min_r\<close> of the set and ends at the first closed bound from there on.
\<close>

definition closedAt :: "('a::linordered_idom) NumericRange set \<Rightarrow> 'a \<Rightarrow> bool" where
  "closedAt S v = (\<forall>c\<in>S. max_r c \<le> v \<or> v + 1 < min_r c)"

definition isFirstBlock :: "('a::linordered_idom) NumericRange set \<Rightarrow> 'a \<Rightarrow> 'a \<Rightarrow> bool" where
  "isFirstBlock S lo hi =
     ((\<exists>c\<in>S. min_r c = lo) \<and> (\<forall>c\<in>S. lo \<le> min_r c) \<and> lo - 1 \<le> hi \<and> closedAt S hi \<and>
      (\<forall>v. lo - 1 \<le> v \<and> v < hi \<longrightarrow> \<not> closedAt S v))"

section \<open>The merge loop\<close>

lemma mergeLoop_append:
  "mergeLoop merged current rest = merged @ mergeLoop [] current rest"
proof (induction rest arbitrary: merged current)
  case Nil
  show ?case by simp
next
  case (Cons n rest)
  show ?case
  proof (cases "min_r n \<le> max_r current + 1")
    case True
    then show ?thesis using Cons.IH [of merged] by simp
  next
    case False
    then show ?thesis
      using Cons.IH [of "merged @ [current]" n] Cons.IH [of "[current]" n] by simp
  qed
qed

lemma mergeLoop_Cons:
  "mergeLoop [] current (n # rest) =
     (if min_r n \<le> max_r current + 1
      then mergeLoop [] (current\<lparr>max_r := max (max_r current) (max_r n)\<rparr>) rest
      else current # mergeLoop [] n rest)"
  using mergeLoop_append [of "[current]" n rest] by simp

lemma mergeLoop_not_Nil: "mergeLoop [] current rest \<noteq> []"
  by (induction rest arbitrary: current) (simp_all add: mergeLoop_Cons del: mergeLoop.simps(2))

lemma hd_mergeLoop:
  "hd (mergeLoop [] current rest) = current\<lparr>max_r := firstReach (max_r current) rest\<rparr>"
  by (induction rest arbitrary: current) (simp_all add: mergeLoop_Cons del: mergeLoop.simps(2))

lemma gaps_mergeLoop:
  "successively (\<lambda>a b. max_r a + 1 < min_r b) (mergeLoop [] current rest)"
proof (induction rest arbitrary: current)
  case Nil
  show ?case by simp
next
  case (Cons n rest)
  show ?case
    using Cons.IH
    by (simp add: mergeLoop_Cons successively_Cons hd_mergeLoop mergeLoop_not_Nil
          del: mergeLoop.simps(2))
qed

lemma wellFormed_mergeLoop:
  assumes "min_r current \<le> max_r current" and "\<forall>c\<in>set rest. min_r c \<le> max_r c"
  shows "\<forall>b\<in>set (mergeLoop [] current rest). min_r b \<le> max_r b"
  using assms
proof (induction rest arbitrary: current)
  case Nil
  then show ?case by simp
next
  case (Cons n rest)
  show ?case
  proof (cases "min_r n \<le> max_r current + 1")
    case True
    have "min_r (current\<lparr>max_r := max (max_r current) (max_r n)\<rparr>)
            \<le> max_r (current\<lparr>max_r := max (max_r current) (max_r n)\<rparr>)"
      using Cons.prems(1) by simp
    then have "\<forall>b\<in>set (mergeLoop [] (current\<lparr>max_r := max (max_r current) (max_r n)\<rparr>) rest).
                 min_r b \<le> max_r b"
      using Cons.prems(2) by (intro Cons.IH) simp_all
    then show ?thesis using True by (simp add: mergeLoop_Cons del: mergeLoop.simps(2))
  next
    case False
    have "\<forall>b\<in>set (mergeLoop [] n rest). min_r b \<le> max_r b"
      using Cons.prems(2) by (intro Cons.IH) simp_all
    then show ?thesis
      using False Cons.prems(1) by (simp add: mergeLoop_Cons del: mergeLoop.simps(2))
  qed
qed

lemma mergeLoop_gapped_id:
  assumes "successively (\<lambda>a b. max_r a + 1 < min_r b) (b # rest)"
  shows "mergeLoop [] b rest = b # rest"
  using assms
proof (induction rest arbitrary: b)
  case Nil
  show ?case by simp
next
  case (Cons n rest)
  then have "\<not> min_r n \<le> max_r b + 1" and "mergeLoop [] n rest = n # rest"
    by simp_all
  then show ?case by (simp add: mergeLoop_Cons del: mergeLoop.simps(2))
qed

lemma sort_key_not_Nil: "xs \<noteq> [] \<Longrightarrow> sort_key f xs \<noteq> []"
  by (cases xs) simp_all

lemma mergedBlocks_wellFormed:
  assumes "availableRanges \<noteq> []" and "\<forall>c\<in>set availableRanges. min_r c \<le> max_r c"
  shows "\<forall>b\<in>set (mergedBlocks availableRanges). min_r b \<le> max_r b"
proof -
  let ?s = "sort_key min_r availableRanges"
  obtain x rest where s: "?s = x # rest"
    using sort_key_not_Nil [OF assms(1), of min_r] by (cases ?s) auto
  have "set (x # rest) = set availableRanges"
    using set_sort [of min_r availableRanges] s by simp
  then have "min_r x \<le> max_r x" and "\<forall>c\<in>set rest. min_r c \<le> max_r c"
    using assms(2) by auto
  then have "min_r (hd ?s) \<le> max_r (hd ?s)" and "\<forall>c\<in>set (tl ?s). min_r c \<le> max_r c"
    using s by simp_all
  then have "\<forall>b\<in>set (mergeLoop [] (hd ?s) (tl ?s)). min_r b \<le> max_r b"
    by (rule wellFormed_mergeLoop)
  then show ?thesis by (simp add: mergedBlocks_def Let_def)
qed

lemma mergedBlocks_gaps:
  "successively (\<lambda>a b. max_r a + 1 < min_r b) (mergedBlocks availableRanges)"
  using gaps_mergeLoop by (simp add: mergedBlocks_def Let_def)

lemma below_gap:
  fixes a b c :: "'a::linordered_idom"
  shows "a \<le> b \<Longrightarrow> b + 1 < c \<Longrightarrow> a < c"
  by (metis less_add_one le_less_trans less_trans)

lemma gapped_wellFormed_ascending:
  fixes bs :: "('a::linordered_idom) NumericRange list"
  assumes "successively (\<lambda>a b. max_r a + 1 < min_r b) bs"
    and "\<forall>b\<in>set bs. min_r b \<le> max_r b"
  shows "sorted_wrt (\<lambda>a b. min_r a < min_r b) bs"
proof -
  have "successively (\<lambda>a b. min_r a < min_r b) bs"
    using assms
  proof (induction bs rule: induct_list012)
    case (3 x y zs)
    then have "min_r x < min_r y"
      using below_gap [of "min_r x" "max_r x" "min_r y"] by simp
    then show ?case using 3 by simp
  qed simp_all
  moreover have "transp (\<lambda>a b :: 'a NumericRange. min_r a < min_r b)"
    by (auto intro: transpI)
  ultimately show ?thesis by (simp add: successively_conv_sorted_wrt)
qed

section \<open>The coverage walk looks at the first block only\<close>

text \<open>
  Consecutive merged blocks are more than one unit apart, so after the first block the
  walk either has returned or meets a block that begins above \<open>coverageStart\<close>.
\<close>

lemma coverageWalk_gapped:
  assumes "successively (\<lambda>a b. max_r a + 1 < min_r b) (b # rest)"
  shows "coverageWalk desired start (b # rest) = (min_r b \<le> start \<and> max_r desired \<le> max_r b)"
  using assms by (cases rest) auto

lemma isRangeFullyCovered_firstBlock:
  assumes "availableRanges \<noteq> []"
  shows "isRangeFullyCovered desired availableRanges =
           (min_r (hd (sort_key min_r availableRanges)) \<le> min_r desired \<and>
            max_r desired \<le> firstReach (max_r (hd (sort_key min_r availableRanges)))
                                 (tl (sort_key min_r availableRanges)))"
proof -
  let ?s = "sort_key min_r availableRanges"
  let ?bs = "mergeLoop [] (hd ?s) (tl ?s)"
  obtain b rest where bs: "?bs = b # rest"
    using mergeLoop_not_Nil [of "hd ?s" "tl ?s"] by (cases ?bs) auto
  have b: "b = (hd ?s)\<lparr>max_r := firstReach (max_r (hd ?s)) (tl ?s)\<rparr>"
    using hd_mergeLoop [of "hd ?s" "tl ?s"] bs by simp
  have "successively (\<lambda>a b. max_r a + 1 < min_r b) (b # rest)"
    using gaps_mergeLoop [of "hd ?s" "tl ?s"] bs by simp
  then have "coverageWalk desired (min_r desired) (b # rest) =
              (min_r b \<le> min_r desired \<and> max_r desired \<le> max_r b)"
    by (rule coverageWalk_gapped)
  then have "coverageWalk desired (min_r desired) ?bs =
              (min_r (hd ?s) \<le> min_r desired \<and>
               max_r desired \<le> firstReach (max_r (hd ?s)) (tl ?s))"
    unfolding bs by (simp add: b)
  moreover have "isRangeFullyCovered desired availableRanges =
                   coverageWalk desired (min_r desired) ?bs"
    using assms by (simp add: isRangeFullyCovered_def mergedBlocks_def Let_def)
  ultimately show ?thesis by simp
qed

section \<open>The first block does not depend on the order of the candidates\<close>

lemma firstReach_ge: "m \<le> firstReach m rest"
proof (induction rest arbitrary: m)
  case Nil
  show ?case by simp
next
  case (Cons n rest)
  have "max m (max_r n) \<le> firstReach (max m (max_r n)) rest" by (rule Cons.IH)
  then show ?case by simp
qed

lemma firstReach_closed:
  assumes "sorted (map min_r rest)"
  shows "closedAt (set rest) (firstReach m rest)"
  using assms
proof (induction rest arbitrary: m)
  case Nil
  show ?case by (simp add: closedAt_def)
next
  case (Cons n rest)
  show ?case
  proof (cases "min_r n \<le> m + 1")
    case True
    have "max m (max_r n) \<le> firstReach (max m (max_r n)) rest" by (rule firstReach_ge)
    moreover have "closedAt (set rest) (firstReach (max m (max_r n)) rest)"
      using Cons.IH Cons.prems by simp
    ultimately show ?thesis using True by (simp add: closedAt_def)
  next
    case False
    then show ?thesis using Cons.prems by (fastforce simp add: closedAt_def)
  qed
qed

lemma firstReach_chain:
  assumes "m \<le> v" and "v < firstReach m rest"
  shows "\<exists>c\<in>set rest. min_r c \<le> v + 1 \<and> v < max_r c"
  using assms
proof (induction rest arbitrary: m)
  case Nil
  then show ?case by simp
next
  case (Cons n rest)
  show ?case
  proof (cases "min_r n \<le> m + 1")
    case True
    show ?thesis
    proof (cases "max m (max_r n) \<le> v")
      case True
      then show ?thesis using Cons.IH [of "max m (max_r n)"] Cons.prems \<open>min_r n \<le> m + 1\<close> by auto
    next
      case False
      then show ?thesis using Cons.prems \<open>min_r n \<le> m + 1\<close> by auto
    qed
  next
    case False
    then show ?thesis using Cons.prems by simp
  qed
qed

lemma isFirstBlock_unique:
  assumes "isFirstBlock S lo hi" and "isFirstBlock S lo' hi'"
  shows "lo = lo' \<and> hi = hi'"
proof -
  have lo: "lo = lo'"
    using assms unfolding isFirstBlock_def by (metis order.antisym)
  have "\<not> hi < hi'"
    using assms lo unfolding isFirstBlock_def by blast
  moreover have "\<not> hi' < hi"
    using assms lo unfolding isFirstBlock_def by blast
  ultimately show ?thesis using lo by simp
qed

lemma isFirstBlock_sorted:
  assumes sorted: "sorted (map min_r (x # rest))" and wf: "min_r x \<le> max_r x"
  shows "isFirstBlock (set (x # rest)) (min_r x) (firstReach (max_r x) rest)"
proof -
  let ?R = "firstReach (max_r x) rest"
  have ge: "max_r x \<le> ?R" by (rule firstReach_ge)
  have lo: "\<forall>c\<in>set (x # rest). min_r x \<le> min_r c"
    using sorted by auto
  have "closedAt (set rest) ?R"
    using sorted by (simp add: firstReach_closed)
  then have closed: "closedAt (set (x # rest)) ?R"
    using ge by (simp add: closedAt_def)
  have chain: "\<not> closedAt (set (x # rest)) v" if v: "min_r x - 1 \<le> v" "v < ?R" for v
  proof (cases "v < max_r x")
    case True
    then have "\<not> max_r x \<le> v" and "\<not> v + 1 < min_r x" using v by auto
    then show ?thesis by (auto simp add: closedAt_def)
  next
    case False
    then have "max_r x \<le> v" by simp
    then obtain c where c: "c \<in> set rest" "min_r c \<le> v + 1" "v < max_r c"
      using firstReach_chain [of "max_r x" v rest] v by blast
    then have "\<not> (max_r c \<le> v \<or> v + 1 < min_r c)" by auto
    then show ?thesis using c(1) unfolding closedAt_def by auto
  qed
  have "min_r x - 1 \<le> ?R" using wf ge by simp
  then show ?thesis
    unfolding isFirstBlock_def using lo closed chain by auto
qed

lemma isFirstBlock_sort_key:
  assumes "availableRanges \<noteq> []" and "\<forall>c\<in>set availableRanges. min_r c \<le> max_r c"
  shows "isFirstBlock (set availableRanges)
           (min_r (hd (sort_key min_r availableRanges)))
           (firstReach (max_r (hd (sort_key min_r availableRanges)))
              (tl (sort_key min_r availableRanges)))"
proof -
  let ?s = "sort_key min_r availableRanges"
  obtain x rest where s: "?s = x # rest"
    using sort_key_not_Nil [OF assms(1), of min_r] by (cases ?s) auto
  have "sorted (map min_r (x # rest))"
    using sorted_sort_key [of min_r availableRanges] s by simp
  moreover have "x \<in> set availableRanges"
    using set_sort [of min_r availableRanges] s by auto
  then have "min_r x \<le> max_r x" using assms(2) by blast
  ultimately have "isFirstBlock (set (x # rest)) (min_r x) (firstReach (max_r x) rest)"
    by (rule isFirstBlock_sorted)
  moreover have "set (x # rest) = set availableRanges"
    using set_sort [of min_r availableRanges] s by simp
  ultimately show ?thesis using s by simp
qed

lemma isRangeFullyCovered_isFirstBlock:
  assumes "availableRanges \<noteq> []" and "\<forall>c\<in>set availableRanges. min_r c \<le> max_r c"
    and "isFirstBlock (set availableRanges) lo hi"
  shows "isRangeFullyCovered desired availableRanges =
           (lo \<le> min_r desired \<and> max_r desired \<le> hi)"
proof -
  let ?s = "sort_key min_r availableRanges"
  have "isFirstBlock (set availableRanges) (min_r (hd ?s)) (firstReach (max_r (hd ?s)) (tl ?s))"
    using assms(1,2) by (rule isFirstBlock_sort_key)
  then have "min_r (hd ?s) = lo \<and> firstReach (max_r (hd ?s)) (tl ?s) = hi"
    using assms(3) by (rule isFirstBlock_unique)
  then show ?thesis
    using isRangeFullyCovered_firstBlock [OF assms(1), of desired] by simp
qed

lemma isRangeFullyCovered_set_eq:
  assumes "set xs = set ys" and "\<forall>c\<in>set xs. min_r c \<le> max_r c"
  shows "isRangeFullyCovered desired xs = isRangeFullyCovered desired ys"
proof (cases "xs = []")
  case True
  then have "ys = []" using assms(1) by simp
  then show ?thesis using True by simp
next
  case False
  then have ys: "ys \<noteq> []" using assms(1) by auto
  have wf: "\<forall>c\<in>set ys. min_r c \<le> max_r c" using assms by simp
  let ?s = "sort_key min_r xs"
  have fb: "isFirstBlock (set xs) (min_r (hd ?s)) (firstReach (max_r (hd ?s)) (tl ?s))"
    using False assms(2) by (rule isFirstBlock_sort_key)
  then have "isFirstBlock (set ys) (min_r (hd ?s)) (firstReach (max_r (hd ?s)) (tl ?s))"
    using assms(1) by simp
  then have "isRangeFullyCovered desired ys =
      (min_r (hd ?s) \<le> min_r desired \<and> max_r desired \<le> firstReach (max_r (hd ?s)) (tl ?s))"
    using ys wf by (simp add: isRangeFullyCovered_isFirstBlock)
  moreover have "isRangeFullyCovered desired xs =
      (min_r (hd ?s) \<le> min_r desired \<and> max_r desired \<le> firstReach (max_r (hd ?s)) (tl ?s))"
    using False assms(2) fb by (simp add: isRangeFullyCovered_isFirstBlock)
  ultimately show ?thesis by simp
qed

section \<open>Binary64 addition of one\<close>

lemma ulp64_below: "n < 2 ^ 53 \<Longrightarrow> ulp64 n = 1"
  by (simp add: ulp64.simps)

lemma ulp64_above: "2 ^ 53 \<le> n \<Longrightarrow> ulp64 n = 2 * ulp64 (n div 2)"
  by (subst ulp64.simps) simp

lemma round_f64_exact: "\<bar>y\<bar> \<le> 2 ^ 53 \<Longrightarrow> round_f64 y = y"
proof (cases "\<bar>y\<bar> < 2 ^ 53")
  case True
  then show ?thesis by (simp add: round_f64_def ulp64_below Let_def sgn_mult_abs)
next
  case False
  assume "\<bar>y\<bar> \<le> 2 ^ 53"
  with False have n: "\<bar>y\<bar> = 2 ^ 53" by simp
  have "ulp64 (2 ^ 53) = 2" by (simp add: ulp64_above ulp64_below)
  then have "round_f64 y = sgn y * 2 ^ 53"
    by (simp add: round_f64_def n Let_def)
  then show ?thesis using n by (simp add: sgn_if split: if_splits)
qed

lemmas f64_eval = add1_f64_def round_f64_def ulp64_above ulp64_below Let_def

section \<open>The first block in binary64 arithmetic\<close>

lemma mergeLoop64_append:
  "mergeLoop64 merged current rest = merged @ mergeLoop64 [] current rest"
proof (induction rest arbitrary: merged current)
  case Nil
  show ?case by simp
next
  case (Cons n rest)
  show ?case
  proof (cases "min_r n \<le> add1_f64 (max_r current)")
    case True
    then show ?thesis using Cons.IH [of merged] by simp
  next
    case False
    then show ?thesis
      using Cons.IH [of "merged @ [current]" n] Cons.IH [of "[current]" n] by simp
  qed
qed

lemma mergeLoop64_Cons:
  "mergeLoop64 [] current (n # rest) =
     (if min_r n \<le> add1_f64 (max_r current)
      then mergeLoop64 [] (current\<lparr>max_r := max (max_r current) (max_r n)\<rparr>) rest
      else current # mergeLoop64 [] n rest)"
  using mergeLoop64_append [of "[current]" n rest] by simp

lemma mergeLoop64_not_Nil: "mergeLoop64 [] current rest \<noteq> []"
  by (induction rest arbitrary: current) (simp_all add: mergeLoop64_Cons del: mergeLoop64.simps(2))

lemma hd_mergeLoop64:
  "hd (mergeLoop64 [] current rest) = current\<lparr>max_r := firstReach64 (max_r current) rest\<rparr>"
  by (induction rest arbitrary: current) (simp_all add: mergeLoop64_Cons del: mergeLoop64.simps(2))

lemma gaps_mergeLoop64:
  "successively (\<lambda>a b. add1_f64 (max_r a) < min_r b) (mergeLoop64 [] current rest)"
proof (induction rest arbitrary: current)
  case Nil
  show ?case by simp
next
  case (Cons n rest)
  show ?case
    using Cons.IH
    by (simp add: mergeLoop64_Cons successively_Cons hd_mergeLoop64 mergeLoop64_not_Nil
          del: mergeLoop64.simps(2))
qed

lemma coverageWalk64_gapped:
  assumes "successively (\<lambda>a b. add1_f64 (max_r a) < min_r b) (b # rest)"
  shows "coverageWalk64 desired start (b # rest) = (min_r b \<le> start \<and> max_r desired \<le> max_r b)"
  using assms by (cases rest) auto

lemma isRangeFullyCovered64_firstBlock:
  assumes "availableRanges \<noteq> []"
  shows "isRangeFullyCovered64 desired availableRanges =
           (min_r (hd (sort_key min_r availableRanges)) \<le> min_r desired \<and>
            max_r desired \<le> firstReach64 (max_r (hd (sort_key min_r availableRanges)))
                                 (tl (sort_key min_r availableRanges)))"
proof -
  let ?s = "sort_key min_r availableRanges"
  let ?bs = "mergeLoop64 [] (hd ?s) (tl ?s)"
  obtain b rest where bs: "?bs = b # rest"
    using mergeLoop64_not_Nil [of "hd ?s" "tl ?s"] by (cases ?bs) auto
  have b: "b = (hd ?s)\<lparr>max_r := firstReach64 (max_r (hd ?s)) (tl ?s)\<rparr>"
    using hd_mergeLoop64 [of "hd ?s" "tl ?s"] bs by simp
  have "successively (\<lambda>a b. add1_f64 (max_r a) < min_r b) (b # rest)"
    using gaps_mergeLoop64 [of "hd ?s" "tl ?s"] bs by simp
  then have "coverageWalk64 desired (min_r desired) (b # rest) =
              (min_r b \<le> min_r desired \<and> max_r desired \<le> max_r b)"
    by (rule coverageWalk64_gapped)
  then have "coverageWalk64 desired (min_r desired) ?bs =
              (min_r (hd ?s) \<le> min_r desired \<and>
               max_r desired \<le> firstReach64 (max_r (hd ?s)) (tl ?s))"
    unfolding bs by (simp add: b)
  moreover have "isRangeFullyCovered64 desired availableRanges =
                   coverageWalk64 desired (min_r desired) ?bs"
    using assms by (simp add: isRangeFullyCovered64_def mergedBlocks64_def Let_def)
  ultimately show ?thesis by simp
qed

lemma firstReach64_chain:
  assumes "m \<le> v" and "v < firstReach64 m rest"
    and "add1_f64 m \<le> m + 1" and "\<forall>c\<in>set rest. add1_f64 (max_r c) \<le> max_r c + 1"
  shows "\<exists>c\<in>set rest. min_r c \<le> v + 1 \<and> v < max_r c"
  using assms
proof (induction rest arbitrary: m)
  case Nil
  then show ?case by simp
next
  case (Cons n rest)
  show ?case
  proof (cases "min_r n \<le> add1_f64 m")
    case merge: True
    then have low: "min_r n \<le> m + 1" using Cons.prems(3) by simp
    have up: "add1_f64 (max m (max_r n)) \<le> max m (max_r n) + 1"
      using Cons.prems(3,4) by (cases "m \<le> max_r n") (simp_all add: max_def)
    show ?thesis
    proof (cases "max m (max_r n) \<le> v")
      case True
      moreover have "v < firstReach64 (max m (max_r n)) rest"
        using Cons.prems(2) merge by simp
      ultimately have "\<exists>c\<in>set rest. min_r c \<le> v + 1 \<and> v < max_r c"
        using up Cons.prems(4) by (intro Cons.IH) simp_all
      then show ?thesis by auto
    next
      case False
      then have "v < max_r n" using Cons.prems(1) by simp
      moreover have "min_r n \<le> v + 1" using low Cons.prems(1) by simp
      ultimately show ?thesis by auto
    qed
  next
    case False
    then show ?thesis using Cons.prems by simp
  qed
qed

section \<open>The two readings agree while the additions are exact\<close>

lemma mergeLoop64_exact:
  assumes "add1_f64 (max_r current) = max_r current + 1"
    and "\<forall>c\<in>set rest. add1_f64 (max_r c) = max_r c + 1"
  shows "mergeLoop64 merged current rest = mergeLoop merged current rest"
  using assms
proof (induction rest arbitrary: merged current)
  case Nil
  show ?case by simp
next
  case (Cons n rest)
  have "add1_f64 (max (max_r current) (max_r n)) = max (max_r current) (max_r n) + 1"
    using Cons.prems by (cases "max_r current \<le> max_r n") (simp_all add: max_def)
  then have "mergeLoop64 merged (current\<lparr>max_r := max (max_r current) (max_r n)\<rparr>) rest =
             mergeLoop merged (current\<lparr>max_r := max (max_r current) (max_r n)\<rparr>) rest"
    using Cons.prems(2) by (intro Cons.IH) simp_all
  moreover have "mergeLoop64 (merged @ [current]) n rest = mergeLoop (merged @ [current]) n rest"
    using Cons.prems(2) by (intro Cons.IH) simp_all
  ultimately show ?case using Cons.prems(1) by simp
qed

lemma exact_mergeLoop:
  assumes "add1_f64 (max_r current) = max_r current + 1"
    and "\<forall>c\<in>set rest. add1_f64 (max_r c) = max_r c + 1"
  shows "\<forall>b\<in>set (mergeLoop [] current rest). add1_f64 (max_r b) = max_r b + 1"
  using assms
proof (induction rest arbitrary: current)
  case Nil
  then show ?case by simp
next
  case (Cons n rest)
  have "add1_f64 (max (max_r current) (max_r n)) = max (max_r current) (max_r n) + 1"
    using Cons.prems by (cases "max_r current \<le> max_r n") (simp_all add: max_def)
  then have "\<forall>b\<in>set (mergeLoop [] (current\<lparr>max_r := max (max_r current) (max_r n)\<rparr>) rest).
               add1_f64 (max_r b) = max_r b + 1"
    using Cons.prems(2) by (intro Cons.IH) simp_all
  moreover have "\<forall>b\<in>set (mergeLoop [] n rest). add1_f64 (max_r b) = max_r b + 1"
    using Cons.prems(2) by (intro Cons.IH) simp_all
  ultimately show ?case
    using Cons.prems(1) by (simp add: mergeLoop_Cons del: mergeLoop.simps(2))
qed

lemma coverageWalk64_exact:
  assumes "\<forall>b\<in>set blocks. add1_f64 (max_r b) = max_r b + 1"
  shows "coverageWalk64 desired start blocks = coverageWalk desired start blocks"
  using assms by (induction blocks arbitrary: start) simp_all

lemma isRangeFullyCovered64_exact:
  assumes "\<forall>c\<in>set candidates. add1_f64 (max_r c) = max_r c + 1"
  shows "isRangeFullyCovered64 target candidates = isRangeFullyCovered target candidates"
proof (cases "candidates = []")
  case True
  then show ?thesis by (simp add: isRangeFullyCovered64_def isRangeFullyCovered_def)
next
  case False
  let ?s = "sort_key min_r candidates"
  obtain x rest where s: "?s = x # rest"
    using sort_key_not_Nil [OF False, of min_r] by (cases ?s) auto
  have "set (x # rest) = set candidates"
    using set_sort [of min_r candidates] s by simp
  then have x: "add1_f64 (max_r x) = max_r x + 1"
    and rest: "\<forall>c\<in>set rest. add1_f64 (max_r c) = max_r c + 1"
    using assms by auto
  have blocks: "mergedBlocks64 candidates = mergedBlocks candidates"
    using mergeLoop64_exact [OF x rest, of "[]"] s
    by (simp add: mergedBlocks64_def mergedBlocks_def Let_def)
  have "\<forall>b\<in>set (mergedBlocks candidates). add1_f64 (max_r b) = max_r b + 1"
    using exact_mergeLoop [OF x rest] s by (simp add: mergedBlocks_def Let_def)
  then have "coverageWalk64 target (min_r target) (mergedBlocks candidates) =
             coverageWalk target (min_r target) (mergedBlocks candidates)"
    by (rule coverageWalk64_exact)
  then show ?thesis
    using blocks by (simp add: isRangeFullyCovered64_def isRangeFullyCovered_def)
qed

section \<open>Coverage by the union\<close>

lemma isRangeFullyCovered64_sound:
  assumes wf: "\<forall>c\<in>set candidates. min_r c \<le> max_r c"
    and up: "\<forall>c\<in>set candidates. add1_f64 (max_r c) \<le> max_r c + 1"
    and res: "isRangeFullyCovered64 target candidates"
  shows "unionCovers target candidates"
proof -
  have ne: "candidates \<noteq> []"
    using res by (auto simp add: isRangeFullyCovered64_def)
  let ?s = "sort_key min_r candidates"
  obtain x rest where s: "?s = x # rest"
    using sort_key_not_Nil [OF ne, of min_r] by (cases ?s) auto
  have sets: "set (x # rest) = set candidates"
    using set_sort [of min_r candidates] s by simp
  then have x: "x \<in> set candidates" and rest: "set rest \<subseteq> set candidates" by auto
  have span: "min_r x \<le> min_r target" "max_r target \<le> firstReach64 (max_r x) rest"
    using res isRangeFullyCovered64_firstBlock [OF ne, of target] s by simp_all
  show ?thesis
    unfolding unionCovers_def
  proof (intro allI impI)
    fix v assume v: "min_r target \<le> v \<and> v \<le> max_r target"
    show "inUnion v candidates"
    proof (cases "v \<le> max_r x")
      case True
      then have "min_r x \<le> v \<and> v \<le> max_r x" using span(1) v by simp
      then show ?thesis using x unfolding inUnion_def by blast
    next
      case False
      then have "max_r x \<le> v - 1" and "v - 1 < firstReach64 (max_r x) rest"
        using v span(2) by simp_all
      moreover have "add1_f64 (max_r x) \<le> max_r x + 1" using up x by blast
      moreover have "\<forall>c\<in>set rest. add1_f64 (max_r c) \<le> max_r c + 1" using up rest by blast
      ultimately obtain c where "c \<in> set rest" "min_r c \<le> v - 1 + 1" "v - 1 < max_r c"
        using firstReach64_chain [of "max_r x" "v - 1" rest] by blast
      then have "c \<in> set candidates" and "min_r c \<le> v \<and> v \<le> max_r c"
        using rest by auto
      then show ?thesis unfolding inUnion_def by blast
    qed
  qed
qed

lemma isRangeFullyCovered_complete:
  fixes target :: "('a::linordered_idom) NumericRange"
  assumes wf: "min_r target \<le> max_r target"
    and cov: "unionCovers target candidates"
    and reach: "\<forall>b\<in>set (mergedBlocks candidates). min_r target \<le> max_r b + 1"
  shows "isRangeFullyCovered target candidates"
proof -
  have low: "inUnion (min_r target) candidates" and high: "inUnion (max_r target) candidates"
    using cov wf unfolding unionCovers_def by simp_all
  then have ne: "candidates \<noteq> []" unfolding inUnion_def by auto
  let ?s = "sort_key min_r candidates"
  obtain x rest where s: "?s = x # rest"
    using sort_key_not_Nil [OF ne, of min_r] by (cases ?s) auto
  let ?hi = "firstReach (max_r x) rest"
  have sets: "set (x # rest) = set candidates"
    using set_sort [of min_r candidates] s by simp
  have sorted: "sorted (map min_r (x # rest))"
    using sorted_sort_key [of min_r candidates] s by simp
  have least: "\<forall>c\<in>set candidates. min_r x \<le> min_r c"
    using sorted sets by auto
  have "closedAt (set rest) ?hi"
    using sorted by (simp add: firstReach_closed)
  moreover have "max_r x \<le> ?hi" by (rule firstReach_ge)
  ultimately have "closedAt (set (x # rest)) ?hi" by (simp add: closedAt_def)
  then have closed: "\<forall>c\<in>set candidates. max_r c \<le> ?hi \<or> ?hi + 1 < min_r c"
    unfolding closedAt_def sets .
  have "mergedBlocks candidates \<noteq> []"
    by (simp add: mergedBlocks_def Let_def mergeLoop_not_Nil)
  then have "hd (mergedBlocks candidates) \<in> set (mergedBlocks candidates)"
    by (rule hd_in_set)
  moreover have "max_r (hd (mergedBlocks candidates)) = ?hi"
    using s by (simp add: mergedBlocks_def Let_def hd_mergeLoop)
  ultimately have near: "min_r target \<le> ?hi + 1" using reach by metis
  obtain c where c: "c \<in> set candidates" "min_r c \<le> min_r target"
    using low unfolding inUnion_def by blast
  have lo: "min_r x \<le> min_r target" using least c by fastforce
  have hi: "max_r target \<le> ?hi"
  proof (rule ccontr)
    assume not: "\<not> max_r target \<le> ?hi"
    obtain d where d: "d \<in> set candidates" "min_r d \<le> max_r target" "max_r target \<le> max_r d"
      using high unfolding inUnion_def by blast
    then have "?hi + 1 < min_r d" using closed not by fastforce
    then have "min_r target \<le> ?hi + 1 \<and> ?hi + 1 \<le> max_r target" using near d(2) by simp
    then have "inUnion (?hi + 1) candidates"
      using cov unfolding unionCovers_def by blast
    then obtain e where e: "e \<in> set candidates" "min_r e \<le> ?hi + 1" "?hi + 1 \<le> max_r e"
      unfolding inUnion_def by blast
    have "max_r e \<le> ?hi \<or> ?hi + 1 < min_r e" using closed e(1) by blast
    then show False using e(2,3) by auto
  qed
  show ?thesis
    using lo hi s isRangeFullyCovered_firstBlock [OF ne, of target] by simp
qed

section \<open>The properties\<close>

subsection \<open>Coverage of the target by the union\<close>

text \<open>
  Claim C1, as amended, for a well-formed target and well-formed candidates.
  \<^item> Whole numbers in binary64 arithmetic: when no addition \<open>max_r c + 1\<close> on a
    candidate rounds up (none does while \<open>max_r c + 1\<close> is at most \<open>2 ^ 53\<close> in
    magnitude) and \<open>isRangeFullyCovered64\<close> answers \<open>True\<close>, the union of the
    candidates contains every whole number of the target range.
  \<^item> Any ordered ring, the reals and the whole numbers among them: when the union of the
    candidates contains every number of the target range and no merged block ends more
    than one unit below the target's \<open>min_r\<close>, \<open>isRangeFullyCovered\<close> answers
    \<open>True\<close>.
  \<^item> On whole numbers the two readings give the same answer when every addition
    \<open>max_r c + 1\<close> on a candidate is exact.
\<close>

theorem isRangeFullyCovered_union:
  fixes target :: "int NumericRange" and candidates :: "int NumericRange list"
    and target' :: "('a::linordered_idom) NumericRange" and candidates' :: "'a NumericRange list"
  shows "(min_r target \<le> max_r target \<and> (\<forall>c\<in>set candidates. min_r c \<le> max_r c) \<and>
          (\<forall>c\<in>set candidates. add1_f64 (max_r c) \<le> max_r c + 1) \<and>
          isRangeFullyCovered64 target candidates
            \<longrightarrow> unionCovers target candidates) \<and>
         (min_r target' \<le> max_r target' \<and> (\<forall>c\<in>set candidates'. min_r c \<le> max_r c) \<and>
          unionCovers target' candidates' \<and>
          (\<forall>b\<in>set (mergedBlocks candidates'). min_r target' \<le> max_r b + 1)
            \<longrightarrow> isRangeFullyCovered target' candidates') \<and>
         ((\<forall>c\<in>set candidates. add1_f64 (max_r c) = max_r c + 1)
            \<longrightarrow> isRangeFullyCovered64 target candidates = isRangeFullyCovered target candidates)"
  using isRangeFullyCovered64_sound [of candidates target]
    isRangeFullyCovered_complete [of target' candidates']
    isRangeFullyCovered64_exact [of candidates target]
  by blast

text \<open>
  The theorem at the whole-number target \<open>[1, 10]\<close> with the candidates \<open>[6, 10]\<close>
  and \<open>[1, 5]\<close>, and at the real target \<open>[1, 10]\<close> with the candidates \<open>[1, 4.5]\<close>
  and \<open>[4.25, 10]\<close>.
\<close>

theorem isRangeFullyCovered_union_witness:
  "unionCovers \<lparr>min_r = 1, max_r = 10\<rparr>
      [\<lparr>min_r = 6, max_r = 10\<rparr>, \<lparr>min_r = 1, max_r = 5 :: int\<rparr>] \<and>
   isRangeFullyCovered \<lparr>min_r = 1, max_r = 10\<rparr>
      [\<lparr>min_r = 1, max_r = 9 / 2\<rparr>, \<lparr>min_r = 17 / 4, max_r = 10 :: real\<rparr>] \<and>
   isRangeFullyCovered \<lparr>min_r = 1, max_r = 10\<rparr>
      [\<lparr>min_r = 6, max_r = 10\<rparr>, \<lparr>min_r = 1, max_r = 5 :: int\<rparr>]"
proof -
  let ?t = "\<lparr>min_r = 1, max_r = 10 :: int\<rparr>"
  let ?cs = "[\<lparr>min_r = 6, max_r = 10\<rparr>, \<lparr>min_r = 1, max_r = 5 :: int\<rparr>]"
  let ?t' = "\<lparr>min_r = 1, max_r = 10 :: real\<rparr>"
  let ?cs' = "[\<lparr>min_r = 1, max_r = 9 / 2\<rparr>, \<lparr>min_r = 17 / 4, max_r = 10 :: real\<rparr>]"
  note inst = isRangeFullyCovered_union [of ?t ?cs ?t' ?cs']
  have exact: "\<forall>c\<in>set ?cs. add1_f64 (max_r c) = max_r c + 1"
    by (simp add: f64_eval)
  have yes: "isRangeFullyCovered64 ?t ?cs"
    by (simp add: isRangeFullyCovered64_def mergedBlocks64_def f64_eval)
  have a: "unionCovers ?t ?cs"
    using inst exact yes by simp
  have cov: "unionCovers ?t' ?cs'"
    by (auto simp add: unionCovers_def inUnion_def)
  have blocks: "mergedBlocks ?cs' = [\<lparr>min_r = 1, max_r = 10\<rparr>]"
    by (simp add: mergedBlocks_def)
  have b: "isRangeFullyCovered ?t' ?cs'"
    using inst cov blocks by simp
  have c: "isRangeFullyCovered ?t ?cs"
    using inst exact yes by simp
  show ?thesis using a b c by simp
qed

text \<open>
  The claim as it was stated fails in three ways. Over the reals the candidates
  \<open>[1, 4.5]\<close> and \<open>[5, 10]\<close> are merged, since \<open>5 \<le> 4.5 + 1\<close>, and the target
  \<open>[1, 10]\<close> is reported covered although \<open>4.75\<close> lies in no candidate. Over the
  whole numbers the candidates \<open>[1, 2]\<close> and \<open>[5, 10]\<close> cover the target \<open>[5, 10]\<close>,
  but the walk moves \<open>coverageStart\<close> from \<open>5\<close> down to \<open>3\<close> at the block \<open>[1, 2]\<close>
  and then reports a gap before \<open>[5, 10]\<close>. And above \<open>2 ^ 53\<close> the sum
  \<open>9007199254740994 + 1\<close> rounds up to \<open>9007199254740996\<close>, so that the candidates
  \<open>[1, 9007199254740994]\<close> and \<open>[9007199254740996, 9007199254741000]\<close> are merged
  and the target \<open>[1, 9007199254741000]\<close> is reported covered although
  \<open>9007199254740995\<close> lies in no candidate.
\<close>

theorem union_characterisation_counterexample:
  "isRangeFullyCovered \<lparr>min_r = 1, max_r = 10\<rparr>
      [\<lparr>min_r = 1, max_r = 9 / 2\<rparr>, \<lparr>min_r = 5, max_r = 10 :: real\<rparr>] \<and>
   \<not> unionCovers \<lparr>min_r = 1, max_r = 10\<rparr>
      [\<lparr>min_r = 1, max_r = 9 / 2\<rparr>, \<lparr>min_r = 5, max_r = 10 :: real\<rparr>] \<and>
   \<not> isRangeFullyCovered64 \<lparr>min_r = 5, max_r = 10\<rparr>
      [\<lparr>min_r = 1, max_r = 2\<rparr>, \<lparr>min_r = 5, max_r = 10\<rparr>] \<and>
   unionCovers \<lparr>min_r = 5, max_r = 10\<rparr>
      [\<lparr>min_r = 1, max_r = 2\<rparr>, \<lparr>min_r = 5, max_r = 10 :: int\<rparr>] \<and>
   isRangeFullyCovered64 \<lparr>min_r = 1, max_r = 9007199254741000\<rparr>
      [\<lparr>min_r = 1, max_r = 9007199254740994\<rparr>,
       \<lparr>min_r = 9007199254740996, max_r = 9007199254741000\<rparr>] \<and>
   \<not> unionCovers \<lparr>min_r = 1, max_r = 9007199254741000\<rparr>
      [\<lparr>min_r = 1, max_r = 9007199254740994\<rparr>,
       \<lparr>min_r = 9007199254740996, max_r = 9007199254741000 :: int\<rparr>]"
proof -
  have "\<not> inUnion (19 / 4) [\<lparr>min_r = 1, max_r = 9 / 2\<rparr>, \<lparr>min_r = 5, max_r = 10 :: real\<rparr>]"
    by (simp add: inUnion_def)
  then have r: "\<not> unionCovers \<lparr>min_r = 1, max_r = 10\<rparr>
      [\<lparr>min_r = 1, max_r = 9 / 2\<rparr>, \<lparr>min_r = 5, max_r = 10 :: real\<rparr>]"
    by (auto simp add: unionCovers_def intro!: exI [of _ "19 / 4"])
  have s: "unionCovers \<lparr>min_r = 5, max_r = 10\<rparr>
      [\<lparr>min_r = 1, max_r = 2\<rparr>, \<lparr>min_r = 5, max_r = 10 :: int\<rparr>]"
    by (simp add: unionCovers_def inUnion_def)
  have "\<not> inUnion 9007199254740995
      [\<lparr>min_r = 1, max_r = 9007199254740994\<rparr>,
       \<lparr>min_r = 9007199254740996, max_r = 9007199254741000 :: int\<rparr>]"
    by (simp add: inUnion_def)
  then have f: "\<not> unionCovers \<lparr>min_r = 1, max_r = 9007199254741000\<rparr>
      [\<lparr>min_r = 1, max_r = 9007199254740994\<rparr>,
       \<lparr>min_r = 9007199254740996, max_r = 9007199254741000 :: int\<rparr>]"
    by (auto simp add: unionCovers_def intro!: exI [of _ 9007199254740995])
  show ?thesis
    using r s f
    by (simp add: isRangeFullyCovered_def mergedBlocks_def
          isRangeFullyCovered64_def mergedBlocks64_def f64_eval)
qed

subsection \<open>The two axes\<close>

text \<open>
  Claim C2. For every pair of targets and every list of cameras,
  \<open>canCamerasCoverDesiredRange\<close> is the conjunction of \<open>isRangeFullyCovered\<close> on the
  distance intervals and \<open>isRangeFullyCovered\<close> on the light intervals of the cameras.
\<close>

theorem canCamerasCoverDesiredRange_is_conjunction:
  "canCamerasCoverDesiredRange targetA targetB sources =
     (isRangeFullyCovered targetA (map distance sources) \<and>
      isRangeFullyCovered targetB (map light sources))"
  by (simp add: canCamerasCoverDesiredRange_def Let_def)

subsection \<open>Touching intervals and a gap of one\<close>

text \<open>
  Claim C3, as amended, for whole numbers in binary64 arithmetic. For \<open>a \<le> b\<close> and
  \<open>b + 1 \<le> c\<close>, with the bound \<open>b + 1\<close> a binary64 number, the candidates \<open>[a, b]\<close>
  and \<open>[b + 1, c]\<close> are merged into the one block \<open>[a, c]\<close> and cover the target
  \<open>[a, c]\<close>. For \<open>a \<le> b\<close> and \<open>b + 2 \<le> c\<close>, when the sum \<open>b + 1\<close> as binary64
  computes it stays below \<open>b + 2\<close>, the candidates \<open>[a, b]\<close> and \<open>[b + 2, c]\<close> stay
  two blocks and do not cover the target \<open>[a, c]\<close>. Both conditions hold while
  \<open>b + 1\<close> is at most \<open>2 ^ 53\<close> in magnitude.
\<close>

theorem adjacency_boundary:
  "(a \<le> b \<and> b + 1 \<le> c \<and> round_f64 (b + 1) = b + 1 \<longrightarrow>
      isRangeFullyCovered64 \<lparr>min_r = a, max_r = c\<rparr>
        [\<lparr>min_r = a, max_r = b\<rparr>, \<lparr>min_r = b + 1, max_r = c\<rparr>] \<and>
      mergedBlocks64 [\<lparr>min_r = a, max_r = b\<rparr>, \<lparr>min_r = b + 1, max_r = c\<rparr>]
        = [\<lparr>min_r = a, max_r = c\<rparr>]) \<and>
   (a \<le> b \<and> b + 2 \<le> c \<and> add1_f64 b < b + 2 \<longrightarrow>
      \<not> isRangeFullyCovered64 \<lparr>min_r = a, max_r = c\<rparr>
        [\<lparr>min_r = a, max_r = b\<rparr>, \<lparr>min_r = b + 2, max_r = c\<rparr>] \<and>
      mergedBlocks64 [\<lparr>min_r = a, max_r = b\<rparr>, \<lparr>min_r = b + 2, max_r = c\<rparr>]
        = [\<lparr>min_r = a, max_r = b\<rparr>, \<lparr>min_r = b + 2, max_r = c\<rparr>]) \<and>
   (\<bar>b + 1\<bar> \<le> 2 ^ 53 \<longrightarrow> round_f64 (b + 1) = b + 1 \<and> add1_f64 b < b + 2)"
proof (intro conjI impI)
  assume h: "a \<le> b \<and> b + 1 \<le> c \<and> round_f64 (b + 1) = b + 1"
  then have "add1_f64 b = b + 1" by (simp add: add1_f64_def)
  with h show "isRangeFullyCovered64 \<lparr>min_r = a, max_r = c\<rparr>
        [\<lparr>min_r = a, max_r = b\<rparr>, \<lparr>min_r = b + 1, max_r = c\<rparr>]"
    and "mergedBlocks64 [\<lparr>min_r = a, max_r = b\<rparr>, \<lparr>min_r = b + 1, max_r = c\<rparr>]
        = [\<lparr>min_r = a, max_r = c\<rparr>]"
    by (simp_all add: isRangeFullyCovered64_def mergedBlocks64_def)
next
  assume h: "a \<le> b \<and> b + 2 \<le> c \<and> add1_f64 b < b + 2"
  then show "\<not> isRangeFullyCovered64 \<lparr>min_r = a, max_r = c\<rparr>
        [\<lparr>min_r = a, max_r = b\<rparr>, \<lparr>min_r = b + 2, max_r = c\<rparr>]"
    and "mergedBlocks64 [\<lparr>min_r = a, max_r = b\<rparr>, \<lparr>min_r = b + 2, max_r = c\<rparr>]
        = [\<lparr>min_r = a, max_r = b\<rparr>, \<lparr>min_r = b + 2, max_r = c\<rparr>]"
    by (simp_all add: isRangeFullyCovered64_def mergedBlocks64_def)
next
  assume "\<bar>b + 1\<bar> \<le> 2 ^ 53"
  then show "round_f64 (b + 1) = b + 1" and "add1_f64 b < b + 2"
    by (simp_all add: add1_f64_def round_f64_exact)
qed

text \<open>
  The theorem at \<open>a = 1\<close>, \<open>b = 3\<close>, \<open>c = 6\<close>, where the hypotheses of all three
  parts hold.
\<close>

theorem adjacency_boundary_witness:
  "isRangeFullyCovered64 \<lparr>min_r = 1, max_r = 6\<rparr>
      [\<lparr>min_r = 1, max_r = 3\<rparr>, \<lparr>min_r = 4, max_r = 6\<rparr>] \<and>
   mergedBlocks64 [\<lparr>min_r = 1, max_r = 3\<rparr>, \<lparr>min_r = 4, max_r = 6\<rparr>]
      = [\<lparr>min_r = 1, max_r = 6\<rparr>] \<and>
   \<not> isRangeFullyCovered64 \<lparr>min_r = 1, max_r = 6\<rparr>
      [\<lparr>min_r = 1, max_r = 3\<rparr>, \<lparr>min_r = 5, max_r = 6\<rparr>] \<and>
   mergedBlocks64 [\<lparr>min_r = 1, max_r = 3\<rparr>, \<lparr>min_r = 5, max_r = 6\<rparr>]
      = [\<lparr>min_r = 1, max_r = 3\<rparr>, \<lparr>min_r = 5, max_r = 6\<rparr>]"
  using adjacency_boundary [of 1 3 6] by simp

text \<open>
  For all whole numbers the second part fails: at \<open>a = 1\<close>, \<open>b = 9007199254740994\<close>
  and \<open>c = 9007199254741000\<close> every bound is a binary64 number, \<open>a \<le> b\<close> and
  \<open>b + 2 \<le> c\<close>, but the sum \<open>b + 1\<close> rounds up to \<open>b + 2\<close>, the two candidates are
  merged at line 58 and the target is reported covered.
\<close>

theorem adjacency_boundary_counterexample:
  "(1 :: int) \<le> 9007199254740994 \<and> (9007199254740994 :: int) + 2 \<le> 9007199254741000 \<and>
   round_f64 9007199254740994 = 9007199254740994 \<and>
   round_f64 (9007199254740994 + 2) = 9007199254740994 + 2 \<and>
   round_f64 9007199254741000 = 9007199254741000 \<and>
   add1_f64 9007199254740994 = 9007199254740996 \<and>
   isRangeFullyCovered64 \<lparr>min_r = 1, max_r = 9007199254741000\<rparr>
      [\<lparr>min_r = 1, max_r = 9007199254740994\<rparr>,
       \<lparr>min_r = 9007199254740994 + 2, max_r = 9007199254741000\<rparr>]"
  by (simp add: isRangeFullyCovered64_def mergedBlocks64_def f64_eval)

subsection \<open>The merged blocks\<close>

text \<open>
  Claim C4. For a non-empty list of well-formed intervals the merged blocks are strictly
  ascending by \<open>min_r\<close>, every block is well formed, and every block begins above
  the end of the block before it plus one.
\<close>

theorem mergedBlocks_invariant:
  assumes "availableRanges \<noteq> []" and "\<forall>c\<in>set availableRanges. min_r c \<le> max_r c"
  shows "sorted_wrt (\<lambda>a b. min_r a < min_r b) (mergedBlocks availableRanges) \<and>
         (\<forall>b\<in>set (mergedBlocks availableRanges). min_r b \<le> max_r b) \<and>
         successively (\<lambda>a b. max_r a + 1 < min_r b) (mergedBlocks availableRanges)"
  using mergedBlocks_gaps [of availableRanges] mergedBlocks_wellFormed [OF assms]
    gapped_wellFormed_ascending [of "mergedBlocks availableRanges"]
  by blast

text \<open>
  The theorem at the intervals \<open>[8, 10]\<close>, \<open>[1, 4]\<close>, \<open>[3, 5]\<close>, whose blocks are
  \<open>[1, 5]\<close> and \<open>[8, 10]\<close>.
\<close>

theorem mergedBlocks_invariant_witness:
  "mergedBlocks [\<lparr>min_r = 8, max_r = 10\<rparr>, \<lparr>min_r = 1, max_r = 4\<rparr>, \<lparr>min_r = 3, max_r = 5 :: int\<rparr>]
     = [\<lparr>min_r = 1, max_r = 5\<rparr>, \<lparr>min_r = 8, max_r = 10\<rparr>] \<and>
   sorted_wrt (\<lambda>a b. min_r a < min_r b)
     (mergedBlocks [\<lparr>min_r = 8, max_r = 10\<rparr>, \<lparr>min_r = 1, max_r = 4\<rparr>, \<lparr>min_r = 3, max_r = 5 :: int\<rparr>]) \<and>
   list_all (\<lambda>b. min_r b \<le> max_r b)
     (mergedBlocks [\<lparr>min_r = 8, max_r = 10\<rparr>, \<lparr>min_r = 1, max_r = 4\<rparr>, \<lparr>min_r = 3, max_r = 5 :: int\<rparr>]) \<and>
   successively (\<lambda>a b. max_r a + 1 < min_r b)
     (mergedBlocks [\<lparr>min_r = 8, max_r = 10\<rparr>, \<lparr>min_r = 1, max_r = 4\<rparr>, \<lparr>min_r = 3, max_r = 5 :: int\<rparr>])"
proof -
  let ?xs = "[\<lparr>min_r = 8, max_r = 10\<rparr>, \<lparr>min_r = 1, max_r = 4\<rparr>, \<lparr>min_r = 3, max_r = 5 :: int\<rparr>]"
  have "sorted_wrt (\<lambda>a b. min_r a < min_r b) (mergedBlocks ?xs) \<and>
        list_all (\<lambda>b. min_r b \<le> max_r b) (mergedBlocks ?xs) \<and>
        successively (\<lambda>a b. max_r a + 1 < min_r b) (mergedBlocks ?xs)"
    using mergedBlocks_invariant [of ?xs] by (simp add: list_all_iff)
  moreover have "mergedBlocks ?xs = [\<lparr>min_r = 1, max_r = 5\<rparr>, \<lparr>min_r = 8, max_r = 10\<rparr>]"
    by (simp add: mergedBlocks_def)
  ultimately show ?thesis by blast
qed

subsection \<open>Order of the candidates\<close>

text \<open>
  Claim C5. For every target and every two lists of well-formed candidates that are
  permutations of each other, \<open>isRangeFullyCovered\<close> gives the same answer.
\<close>

theorem isRangeFullyCovered_permutation:
  assumes "mset candidates = mset candidates'"
    and "\<forall>c\<in>set candidates. min_r c \<le> max_r c"
  shows "isRangeFullyCovered target candidates = isRangeFullyCovered target candidates'"
proof -
  have "set candidates = set candidates'"
    using assms(1) by (rule mset_eq_setD)
  then show ?thesis using assms(2) by (rule isRangeFullyCovered_set_eq)
qed

text \<open>
  The theorem at the target \<open>[1, 10]\<close> and the candidates \<open>[6, 10]\<close>, \<open>[1, 5]\<close> in
  both orders.
\<close>

theorem isRangeFullyCovered_permutation_witness:
  "isRangeFullyCovered \<lparr>min_r = 1, max_r = 10\<rparr>
      [\<lparr>min_r = 6, max_r = 10\<rparr>, \<lparr>min_r = 1, max_r = 5 :: int\<rparr>] \<and>
   isRangeFullyCovered \<lparr>min_r = 1, max_r = 10\<rparr>
      [\<lparr>min_r = 1, max_r = 5\<rparr>, \<lparr>min_r = 6, max_r = 10 :: int\<rparr>]"
proof -
  let ?t = "\<lparr>min_r = 1, max_r = 10 :: int\<rparr>"
  let ?xs = "[\<lparr>min_r = 6, max_r = 10\<rparr>, \<lparr>min_r = 1, max_r = 5 :: int\<rparr>]"
  let ?ys = "[\<lparr>min_r = 1, max_r = 5\<rparr>, \<lparr>min_r = 6, max_r = 10 :: int\<rparr>]"
  have "isRangeFullyCovered ?t ?xs"
    by (simp add: isRangeFullyCovered_def mergedBlocks_def)
  moreover have "isRangeFullyCovered ?t ?xs = isRangeFullyCovered ?t ?ys"
    using isRangeFullyCovered_permutation [of ?xs ?ys ?t] by simp
  ultimately show ?thesis by simp
qed

subsection \<open>Adding a candidate\<close>

text \<open>
  Claim C6 asks that adding a well-formed interval never turns \<open>True\<close> into
  \<open>False\<close>. The code does not do so: the target \<open>[5, 10]\<close> is covered by the single
  candidate \<open>[5, 10]\<close>, and is reported uncovered once \<open>[1, 2]\<close> is added, at either
  end of the list. The walk sets \<open>coverageStart\<close> to \<open>3\<close> after the block \<open>[1, 2]\<close>,
  below the target's \<open>min_r\<close>, and then takes the distance to \<open>[5, 10]\<close> for a gap.
\<close>

theorem monotonicity_fails:
  "isRangeFullyCovered \<lparr>min_r = 5, max_r = 10\<rparr> [\<lparr>min_r = 5, max_r = 10 :: int\<rparr>] \<and>
   \<not> isRangeFullyCovered \<lparr>min_r = 5, max_r = 10\<rparr>
      [\<lparr>min_r = 5, max_r = 10\<rparr>, \<lparr>min_r = 1, max_r = 2 :: int\<rparr>] \<and>
   \<not> isRangeFullyCovered \<lparr>min_r = 5, max_r = 10\<rparr>
      [\<lparr>min_r = 1, max_r = 2\<rparr>, \<lparr>min_r = 5, max_r = 10 :: int\<rparr>]"
  by (simp add: isRangeFullyCovered_def mergedBlocks_def)

subsection \<open>Merging twice\<close>

text \<open>
  Claim C7. The blocks merged from a non-empty list of well-formed intervals are left
  as they are by the merge pass: by the sort followed by the merge loop, and by the
  merge loop alone.
\<close>

theorem mergedBlocks_idempotent:
  assumes "availableRanges \<noteq> []" and "\<forall>c\<in>set availableRanges. min_r c \<le> max_r c"
  shows "mergedBlocks (mergedBlocks availableRanges) = mergedBlocks availableRanges \<and>
         mergeLoop [] (hd (mergedBlocks availableRanges)) (tl (mergedBlocks availableRanges))
           = mergedBlocks availableRanges"
proof -
  let ?bs = "mergedBlocks availableRanges"
  have gaps: "successively (\<lambda>a b. max_r a + 1 < min_r b) ?bs"
    by (rule mergedBlocks_gaps)
  have "\<forall>b\<in>set ?bs. min_r b \<le> max_r b"
    using assms by (rule mergedBlocks_wellFormed)
  with gaps have "sorted_wrt (\<lambda>a b. min_r a < min_r b) ?bs"
    by (rule gapped_wellFormed_ascending)
  then have "sorted_wrt (\<lambda>a b. min_r a \<le> min_r b) ?bs"
    by (rule sorted_wrt_mono_rel [rotated]) simp
  then have "sorted (map min_r ?bs)"
    by (simp add: sorted_wrt_map)
  then have srt: "sort_key min_r ?bs = ?bs"
    by (rule sort_key_id_if_sorted)
  have "?bs \<noteq> []"
    using mergeLoop_not_Nil by (simp add: mergedBlocks_def Let_def)
  then have "?bs = hd ?bs # tl ?bs" by simp
  then have "successively (\<lambda>a b. max_r a + 1 < min_r b) (hd ?bs # tl ?bs)"
    using gaps by simp
  then have "mergeLoop [] (hd ?bs) (tl ?bs) = hd ?bs # tl ?bs"
    by (rule mergeLoop_gapped_id)
  then have again: "mergeLoop [] (hd ?bs) (tl ?bs) = ?bs"
    using \<open>?bs \<noteq> []\<close> by simp
  have "mergedBlocks ?bs = mergeLoop [] (hd ?bs) (tl ?bs)"
    using srt by (simp add: mergedBlocks_def [of ?bs] Let_def)
  then show ?thesis using again by simp
qed

text \<open>
  The theorem at the intervals \<open>[8, 10]\<close>, \<open>[1, 4]\<close>, \<open>[3, 5]\<close>.
\<close>

theorem mergedBlocks_idempotent_witness:
  "mergedBlocks (mergedBlocks
      [\<lparr>min_r = 8, max_r = 10\<rparr>, \<lparr>min_r = 1, max_r = 4\<rparr>, \<lparr>min_r = 3, max_r = 5 :: int\<rparr>])
     = mergedBlocks [\<lparr>min_r = 8, max_r = 10\<rparr>, \<lparr>min_r = 1, max_r = 4\<rparr>, \<lparr>min_r = 3, max_r = 5 :: int\<rparr>] \<and>
   mergedBlocks (mergedBlocks
      [\<lparr>min_r = 8, max_r = 10\<rparr>, \<lparr>min_r = 1, max_r = 4\<rparr>, \<lparr>min_r = 3, max_r = 5 :: int\<rparr>])
     = [\<lparr>min_r = 1, max_r = 5\<rparr>, \<lparr>min_r = 8, max_r = 10\<rparr>]"
proof -
  let ?xs = "[\<lparr>min_r = 8, max_r = 10\<rparr>, \<lparr>min_r = 1, max_r = 4\<rparr>, \<lparr>min_r = 3, max_r = 5 :: int\<rparr>]"
  have "mergedBlocks (mergedBlocks ?xs) = mergedBlocks ?xs"
    using mergedBlocks_idempotent [of ?xs] by simp
  moreover have "mergedBlocks ?xs = [\<lparr>min_r = 1, max_r = 5\<rparr>, \<lparr>min_r = 8, max_r = 10\<rparr>]"
    by (simp add: mergedBlocks_def)
  ultimately show ?thesis by simp
qed

subsection \<open>No candidates\<close>

text \<open>
  Claim C8. With no candidate at all the answer is \<open>False\<close>, whatever the target is
  (also a malformed one), and so it is for an empty list of cameras. The functions are
  total: the empty input is an ordinary result, not a failure.
\<close>

theorem empty_input_is_False:
  "isRangeFullyCovered target [] = False \<and>
   canCamerasCoverDesiredRange targetA targetB [] = False"
  by (simp add: isRangeFullyCovered_def canCamerasCoverDesiredRange_def)

subsection \<open>A single candidate\<close>

text \<open>
  Claim C9. With a single candidate \<open>c\<close> the answer is \<open>True\<close> exactly when
  \<open>c\<close> starts at or below the target's \<open>min_r\<close> and ends at or above the target's
  \<open>max_r\<close>. Neither the target nor the candidate has to be well formed.
\<close>

theorem single_candidate_characterisation:
  "isRangeFullyCovered target [c] = (min_r c \<le> min_r target \<and> max_r target \<le> max_r c)"
  by (auto simp add: isRangeFullyCovered_def mergedBlocks_def)

subsection \<open>Pairing of the two intervals of a camera\<close>

text \<open>
  Claim C10, as amended. When every distance and light interval of the cameras is well
  formed, \<open>canCamerasCoverDesiredRange\<close> depends only on the multiset of distance
  intervals and the multiset of light intervals: two camera lists with the same
  distance intervals and the same light intervals, paired and ordered in any way, get
  the same answer.
\<close>

theorem canCamerasCoverDesiredRange_pairing:
  assumes dist: "mset (map distance cameras) = mset (map distance cameras')"
    and lght: "mset (map light cameras) = mset (map light cameras')"
    and wf: "\<forall>c\<in>set cameras. min_r (distance c) \<le> max_r (distance c) \<and>
                                min_r (light c) \<le> max_r (light c)"
  shows "canCamerasCoverDesiredRange targetA targetB cameras =
         canCamerasCoverDesiredRange targetA targetB cameras'"
proof -
  have "set (map distance cameras) = set (map distance cameras')"
    using dist by (rule mset_eq_setD)
  moreover have "\<forall>r\<in>set (map distance cameras). min_r r \<le> max_r r"
    using wf by simp
  ultimately have d: "isRangeFullyCovered targetA (map distance cameras) =
                      isRangeFullyCovered targetA (map distance cameras')"
    by (rule isRangeFullyCovered_set_eq)
  have "set (map light cameras) = set (map light cameras')"
    using lght by (rule mset_eq_setD)
  moreover have "\<forall>r\<in>set (map light cameras). min_r r \<le> max_r r"
    using wf by simp
  ultimately have l: "isRangeFullyCovered targetB (map light cameras) =
                      isRangeFullyCovered targetB (map light cameras')"
    by (rule isRangeFullyCovered_set_eq)
  show ?thesis
    using d l by (simp add: canCamerasCoverDesiredRange_def Let_def)
qed

text \<open>
  The theorem at two cameras whose light intervals are exchanged.
\<close>

theorem canCamerasCoverDesiredRange_pairing_witness:
  "canCamerasCoverDesiredRange \<lparr>min_r = 1, max_r = 10\<rparr> \<lparr>min_r = 10, max_r = 50\<rparr>
      [\<lparr>distance = \<lparr>min_r = 6, max_r = 10\<rparr>, light = \<lparr>min_r = 30, max_r = 50\<rparr>\<rparr>,
       \<lparr>distance = \<lparr>min_r = 1, max_r = 5\<rparr>, light = \<lparr>min_r = 10, max_r = 29 :: int\<rparr>\<rparr>] \<and>
   canCamerasCoverDesiredRange \<lparr>min_r = 1, max_r = 10\<rparr> \<lparr>min_r = 10, max_r = 50\<rparr>
      [\<lparr>distance = \<lparr>min_r = 6, max_r = 10\<rparr>, light = \<lparr>min_r = 10, max_r = 29\<rparr>\<rparr>,
       \<lparr>distance = \<lparr>min_r = 1, max_r = 5\<rparr>, light = \<lparr>min_r = 30, max_r = 50 :: int\<rparr>\<rparr>]"
proof -
  let ?a = "\<lparr>min_r = 1, max_r = 10 :: int\<rparr>"
  let ?b = "\<lparr>min_r = 10, max_r = 50 :: int\<rparr>"
  let ?xs = "[\<lparr>distance = \<lparr>min_r = 6, max_r = 10\<rparr>, light = \<lparr>min_r = 30, max_r = 50\<rparr>\<rparr>,
       \<lparr>distance = \<lparr>min_r = 1, max_r = 5\<rparr>, light = \<lparr>min_r = 10, max_r = 29 :: int\<rparr>\<rparr>]"
  let ?ys = "[\<lparr>distance = \<lparr>min_r = 6, max_r = 10\<rparr>, light = \<lparr>min_r = 10, max_r = 29\<rparr>\<rparr>,
       \<lparr>distance = \<lparr>min_r = 1, max_r = 5\<rparr>, light = \<lparr>min_r = 30, max_r = 50 :: int\<rparr>\<rparr>]"
  have "canCamerasCoverDesiredRange ?a ?b ?xs"
    by (simp add: canCamerasCoverDesiredRange_def isRangeFullyCovered_def mergedBlocks_def)
  moreover have "canCamerasCoverDesiredRange ?a ?b ?xs = canCamerasCoverDesiredRange ?a ?b ?ys"
    using canCamerasCoverDesiredRange_pairing [of ?xs ?ys ?a ?b] by simp
  ultimately show ?thesis by simp
qed

text \<open>
  Without well-formedness the pairing matters. Two cameras with the same distance
  interval carry the light intervals \<open>[5, 2]\<close> (malformed) and \<open>[5, 9]\<close>. The sort is
  stable and the two light intervals have the same \<open>min_r\<close>, so they stay in the order
  of the cameras: with \<open>[5, 2]\<close> first it is pushed as a block of its own and the walk
  fails, with \<open>[5, 9]\<close> first the other one is merged into it.
\<close>

theorem pairing_counterexample:
  "\<not> canCamerasCoverDesiredRange \<lparr>min_r = 1, max_r = 10\<rparr> \<lparr>min_r = 5, max_r = 9\<rparr>
      [\<lparr>distance = \<lparr>min_r = 1, max_r = 10\<rparr>, light = \<lparr>min_r = 5, max_r = 2\<rparr>\<rparr>,
       \<lparr>distance = \<lparr>min_r = 1, max_r = 10\<rparr>, light = \<lparr>min_r = 5, max_r = 9 :: int\<rparr>\<rparr>] \<and>
   canCamerasCoverDesiredRange \<lparr>min_r = 1, max_r = 10\<rparr> \<lparr>min_r = 5, max_r = 9\<rparr>
      [\<lparr>distance = \<lparr>min_r = 1, max_r = 10\<rparr>, light = \<lparr>min_r = 5, max_r = 9\<rparr>\<rparr>,
       \<lparr>distance = \<lparr>min_r = 1, max_r = 10\<rparr>, light = \<lparr>min_r = 5, max_r = 2 :: int\<rparr>\<rparr>]"
  by (simp add: canCamerasCoverDesiredRange_def isRangeFullyCovered_def mergedBlocks_def)

end
